theory Spec2Isabelle
  imports Main "HOL-Library.Sublist"
begin

section \<open>The forum tree renderer: \<^verbatim>\<open>forum/templatetags/forum_extras.py\<close>\<close>

text \<open>
  Python errors are values. \<^verbatim>\<open>IndexError\<close> is what \<^verbatim>\<open>levels[-1]\<close> raises on an
  empty list, \<^verbatim>\<open>ValueError\<close> what \<^verbatim>\<open>int(...)\<close> raises on text that is no integer,
  \<^verbatim>\<open>IntegrityError\<close> what the database raises on a violated uniqueness constraint.
\<close>

datatype py_error = IndexError | ValueError | IntegrityError

text \<open>
  A post as the renderer reads it: \<^verbatim>\<open>post.pk\<close>, \<^verbatim>\<open>post.left\<close>, \<^verbatim>\<open>post.right\<close>,
  \<^verbatim>\<open>post.subject\<close>, \<^verbatim>\<open>post.user.username\<close> and \<^verbatim>\<open>post.topic.board.slug\<close>.
  Python integers are unbounded, hence \<^typ>\<open>int\<close>.
\<close>

record post =
  pk :: int
  left :: int
  right :: int
  subject :: string
  user_username :: string
  topic_board_slug :: string

text \<open>
  The local variables of \<^verbatim>\<open>make_tree\<close>. The list \<^verbatim>\<open>levels\<close> is kept in Python's
  order: \<^verbatim>\<open>levels[-1]\<close> is \<^const>\<open>last\<close>, \<^verbatim>\<open>levels.pop()\<close> is \<^const>\<open>butlast\<close>,
  \<^verbatim>\<open>levels.append(r)\<close> adds at the end. The string \<^verbatim>\<open>html\<close> is kept as the sequence of
  the strings that the statements \<^verbatim>\<open>html += ...\<close> append, in order; the value
  of the Python variable is their concatenation.
\<close>

record tree_state =
  levels :: "int list"
  depth :: int
  html :: "string list"

definition close_tag :: string where
  "close_tag = ''</div>''"

definition wrapper_open :: string where
  \<open>wrapper_open = ''<div class="post-tree">''\<close>

text \<open>
  Lines 20 to 23, the loop \<^verbatim>\<open>while levels[-1] < post.left\<close>. Reading \<^verbatim>\<open>levels[-1]\<close>
  of the empty list raises: the loop then ends with \<^const>\<open>IndexError\<close>, and the
  variables keep what the iterations before have written.
\<close>

function close_loop :: "tree_state \<Rightarrow> int \<Rightarrow> py_error option \<times> tree_state" where
  "close_loop s l =
     (if levels s = [] then (Some IndexError, s)
      else if last (levels s) < l
        then close_loop (s\<lparr>html := html s @ [close_tag],
                            levels := butlast (levels s),
                            depth := depth s - 1\<rparr>) l
      else (None, s))"
  by pat_completeness auto
termination
  by (relation "measure (\<lambda>(s, l). length (levels s))") auto

text \<open>
  Lines 27 to 41. \<^verbatim>\<open>octicon('arrow-right')\<close> and \<^verbatim>\<open>reverse('forum:post', ...)\<close> are
  calls into code outside these sources: the text of the icon is the parameter
  \<open>icon\<close>, the link of a post the parameter \<open>url\<close>, a function of the board slug and
  the primary key. \<^verbatim>\<open>post == current_post\<close> is Django's equality of model instances,
  equality of primary keys; \<^verbatim>\<open>current_post=None\<close> equals no post.
\<close>

definition is_current :: "post \<Rightarrow> post option \<Rightarrow> bool" where
  "is_current p current_post =
     (case current_post of None \<Rightarrow> False | Some c \<Rightarrow> pk p = pk c)"

definition post_line :: "string \<Rightarrow> (string \<Rightarrow> int \<Rightarrow> string) \<Rightarrow> post option \<Rightarrow> post \<Rightarrow> string" where
  \<open>post_line icon url current_post p =
     (if is_current p current_post
      then ''<div>'' @ icon @ subject p @ '' by '' @ user_username p @ '' on '' @ ''[date]''
      else ''<div><a href="'' @ url (topic_board_slug p) (pk p) @ ''">'' @ subject p
           @ ''</a> by '' @ user_username p @ '' on '' @ ''[date]'')\<close>

text \<open>Lines 32 to 48: what one iteration does after the \<^verbatim>\<open>try\<close> block.\<close>

definition emit_post :: "string \<Rightarrow> (string \<Rightarrow> int \<Rightarrow> string) \<Rightarrow> post option \<Rightarrow> tree_state \<Rightarrow> post \<Rightarrow> tree_state" where
  "emit_post icon url current_post s p =
     (let s1 = s\<lparr>html := html s @ [post_line icon url current_post p]\<rparr>
      in if right p - left p > 1
         then (let s2 = s1\<lparr>levels := levels s1 @ [right p]\<rparr>
               in s2\<lparr>depth := int (length (levels s2))\<rparr>)
         else s1\<lparr>html := html s1 @ [close_tag]\<rparr>)"

text \<open>
  Lines 19 to 48, one iteration of \<^verbatim>\<open>for post in posts\<close>. The handler
  \<^verbatim>\<open>except IndexError: pass\<close> takes the \<^const>\<open>IndexError\<close> of the loop and goes on;
  any other error would leave the function.
\<close>

definition post_step :: "string \<Rightarrow> (string \<Rightarrow> int \<Rightarrow> string) \<Rightarrow> post option \<Rightarrow> tree_state \<Rightarrow> post \<Rightarrow> py_error + tree_state" where
  "post_step icon url current_post s p =
     (case close_loop s (left p) of
        (None, s1) \<Rightarrow> Inr (emit_post icon url current_post s1 p)
      | (Some IndexError, s1) \<Rightarrow> Inr (emit_post icon url current_post s1 p)
      | (Some e, s1) \<Rightarrow> Inl e)"

fun for_posts :: "string \<Rightarrow> (string \<Rightarrow> int \<Rightarrow> string) \<Rightarrow> post option \<Rightarrow> tree_state \<Rightarrow> post list \<Rightarrow> py_error + tree_state" where
  "for_posts icon url current_post s [] = Inr s"
| "for_posts icon url current_post s (p # ps) =
     (case post_step icon url current_post s p of
        Inl e \<Rightarrow> Inl e
      | Inr s' \<Rightarrow> for_posts icon url current_post s' ps)"

definition init_state :: tree_state where
  "init_state = \<lparr>levels = [], depth = 0, html = [wrapper_open]\<rparr>"

text \<open>
  The whole body, with the output still in pieces. \<^verbatim>\<open>'</div>' * depth\<close> is
  \<open>depth\<close> copies of the close tag, none when \<open>depth\<close> is not positive.
\<close>

definition tree_pieces :: "string \<Rightarrow> (string \<Rightarrow> int \<Rightarrow> string) \<Rightarrow> post list \<Rightarrow> post option \<Rightarrow> py_error + string list" where
  "tree_pieces icon url posts current_post =
     (case for_posts icon url current_post init_state posts of
        Inl e \<Rightarrow> Inl e
      | Inr s \<Rightarrow> Inr (html s @ replicate (nat (depth s)) close_tag @ [close_tag]))"

text \<open>\<^verbatim>\<open>make_tree(posts, current_post)\<close>: the string that is returned.\<close>

definition make_tree :: "string \<Rightarrow> (string \<Rightarrow> int \<Rightarrow> string) \<Rightarrow> post list \<Rightarrow> post option \<Rightarrow> py_error + string" where
  "make_tree icon url posts current_post =
     (case tree_pieces icon url posts current_post of
        Inl e \<Rightarrow> Inl e
      | Inr pieces \<Rightarrow> Inr (concat pieces))"

subsection \<open>Notions used to state the properties\<close>

text \<open>The variables as the handler of line 24 leaves them, whether the loop raised or not.\<close>

definition after_close :: "tree_state \<Rightarrow> int \<Rightarrow> tree_state" where
  "after_close s l = snd (close_loop s l)"

text \<open>
  An appended piece opens a container when it starts with \<^verbatim>\<open><div\<close>, and closes one
  when it is the close tag.
\<close>

definition is_open :: "string \<Rightarrow> bool" where
  "is_open x = prefix ''<div'' x"

definition is_close :: "string \<Rightarrow> bool" where
  "is_close x = (x = ''</div>'')"

definition opens :: "string list \<Rightarrow> nat" where
  "opens xs = length (filter is_open xs)"

definition closes :: "string list \<Rightarrow> nat" where
  "closes xs = length (filter is_close xs)"

text \<open>Concrete values for the two parameters and two posts sharing a boundary.\<close>

definition example_icon :: string where
  \<open>example_icon = ''<span class="octicon octicon-arrow-right"></span>''\<close>

definition example_url :: "string \<Rightarrow> int \<Rightarrow> string" where
  "example_url slug k = ''/forum/'' @ slug @ ''/post/''"

definition post_a :: post where
  "post_a = \<lparr>pk = 1, left = 1, right = 5, subject = ''first'',
              user_username = ''ann'', topic_board_slug = ''general''\<rparr>"

definition post_b :: post where
  "post_b = \<lparr>pk = 2, left = 5, right = 6, subject = ''second'',
              user_username = ''bob'', topic_board_slug = ''general''\<rparr>"

text \<open>
  The same on the returned string: the number of positions at which a pattern occurs.
  For the patterns \<^verbatim>\<open><div\<close> and \<^verbatim>\<open></div>\<close>, which cannot overlap themselves, this
  is what Python's \<^verbatim>\<open>str.count\<close> gives.
\<close>

fun count_occ :: "string \<Rightarrow> string \<Rightarrow> nat" where
  "count_occ pat [] = (if pat = [] then 1 else 0)"
| "count_occ pat (c # cs) = (if prefix pat (c # cs) then 1 else 0) + count_occ pat cs"

text \<open>
  A text is free of a pattern when no occurrence of the pattern can start inside it,
  whatever follows the text: no non-empty suffix of the text starts with the pattern or
  is the beginning of the pattern.
\<close>

fun tag_free :: "string \<Rightarrow> string \<Rightarrow> bool" where
  "tag_free pat [] = True"
| "tag_free pat (c # cs) = (\<not> prefix pat (c # cs) \<and> \<not> prefix (c # cs) pat \<and> tag_free pat cs)"

definition open_tag :: string where
  "open_tag = ''<div''"

definition clean_text :: "string \<Rightarrow> bool" where
  "clean_text t = (tag_free open_tag t \<and> tag_free close_tag t)"

text \<open>The texts of a post that \<^verbatim>\<open>line.format\<close> puts into the output.\<close>

definition clean_post :: "(string \<Rightarrow> int \<Rightarrow> string) \<Rightarrow> post \<Rightarrow> bool" where
  "clean_post url p =
     (clean_text (url (topic_board_slug p) (pk p)) \<and> clean_text (subject p)
      \<and> clean_text (user_username p))"

text \<open>A post whose subject is markup.\<close>

definition post_c :: post where
  "post_c = \<lparr>pk = 3, left = 1, right = 2, subject = ''</div>'',
              user_username = ''eve'', topic_board_slug = ''general''\<rparr>"

text \<open>One iteration and the whole loop, once the handler is known to go on.\<close>

abbreviation (input) step :: "string \<Rightarrow> (string \<Rightarrow> int \<Rightarrow> string) \<Rightarrow> post option \<Rightarrow> tree_state \<Rightarrow> post \<Rightarrow> tree_state" where
  "step icon url cur \<equiv> (\<lambda>s p. emit_post icon url cur (after_close s (left p)) p)"

text \<open>
  What every iteration keeps, after \<open>k\<close> posts: \<^verbatim>\<open>depth\<close> is the height of the stack,
  \<open>k\<close> posts and the wrapper have been opened, and every post is closed or on the stack.
\<close>

definition balanced_at :: "nat \<Rightarrow> tree_state \<Rightarrow> bool" where
  "balanced_at k s =
     (depth s = int (length (levels s)) \<and> opens (html s) = Suc k
      \<and> closes (html s) + length (levels s) = k)"

text \<open>The pieces that the loop can append.\<close>

definition known_piece :: "string \<Rightarrow> (string \<Rightarrow> int \<Rightarrow> string) \<Rightarrow> post option \<Rightarrow> post list \<Rightarrow> string \<Rightarrow> bool" where
  "known_piece icon url cur posts x =
     (x = wrapper_open \<or> x = close_tag \<or> (\<exists>p\<in>set posts. x = post_line icon url cur p))"









section \<open>The shared account store: \<^verbatim>\<open>prosodyauth/models.py\<close>, \<^verbatim>\<open>prosodyauth/prosody/datastore.py\<close>\<close>

text \<open>
  A row of the table \<^verbatim>\<open>prosody\<close>, with the fields of the model \<^verbatim>\<open>Prosody\<close> and the
  primary key that Django gives every model (\<open>row_id\<close>, \<^verbatim>\<open>None\<close> on an instance that
  was never saved). The table is the list of its rows, in the order in which a query
  returns them.
\<close>

record Prosody =
  row_id :: "nat option"
  host :: string
  user :: string
  store :: string
  key :: string
  type :: string
  "value" :: string

text \<open>
  \<^verbatim>\<open>super().save()\<close> is Django's \<^verbatim>\<open>Model.save\<close>: an instance whose primary key is in
  the table replaces that row, any other instance is inserted, with a fresh key when it
  has none. \<^verbatim>\<open>unique_together = (("user","store","key"),)\<close> of \<^verbatim>\<open>Meta\<close> makes the
  database refuse a second row with the same three fields.
\<close>

definition same_unique_key :: "Prosody \<Rightarrow> Prosody \<Rightarrow> bool" where
  "same_unique_key x y = (user x = user y \<and> store x = store y \<and> key x = key y)"

definition next_id :: "Prosody list \<Rightarrow> nat" where
  "next_id tbl = Suc (fold (\<lambda>x m. case row_id x of None \<Rightarrow> m | Some i \<Rightarrow> max i m) tbl 0)"

definition Model_save :: "Prosody \<Rightarrow> Prosody list \<Rightarrow> py_error + (Prosody \<times> Prosody list)" where
  "Model_save self tbl =
     (if list_ex (\<lambda>x. same_unique_key x self \<and> (row_id self = None \<or> row_id x \<noteq> row_id self)) tbl
      then Inl IntegrityError
      else if row_id self \<noteq> None \<and> list_ex (\<lambda>x. row_id x = row_id self) tbl
        then Inr (self, map (\<lambda>x. if row_id x = row_id self then self else x) tbl)
      else (let stored = (if row_id self = None then self\<lparr>row_id := Some (next_id tbl)\<rparr> else self)
            in Inr (stored, tbl @ [stored])))"

text \<open>\<^verbatim>\<open>Prosody.save\<close>, lines 38 to 51: the chain of tests sets \<^verbatim>\<open>self.type\<close>, then the row is saved.\<close>

definition save :: "Prosody \<Rightarrow> Prosody list \<Rightarrow> py_error + (Prosody \<times> Prosody list)" where
  "save self tbl =
     Model_save
       (if store self = ''lastlog'' \<and> key self = ''timestamp'' then self\<lparr>type := ''number''\<rparr>
        else if store self = ''accounts'' \<and> key self = ''iterations'' then self\<lparr>type := ''number''\<rparr>
        else if store self = ''roster'' then self\<lparr>type := ''json''\<rparr>
        else if key self = ''persistence'' then self\<lparr>type := ''boolean''\<rparr>
        else self\<lparr>type := ''string''\<rparr>)
       tbl"

text \<open>
  The rule of the specification, in its words: an ordered list of pairs of a predicate
  on \<open>(store, key)\<close> and a type, read from the top, with \<^verbatim>\<open>string\<close> when no predicate
  applies.
\<close>

definition type_rules :: "((string \<Rightarrow> string \<Rightarrow> bool) \<times> string) list" where
  "type_rules =
     [(\<lambda>s k. s = ''lastlog'' \<and> k = ''timestamp'', ''number''),
      (\<lambda>s k. s = ''accounts'' \<and> k = ''iterations'', ''number''),
      (\<lambda>s k. s = ''roster'', ''json''),
      (\<lambda>s k. k = ''persistence'', ''boolean'')]"

definition spec_type :: "string \<Rightarrow> string \<Rightarrow> string" where
  "spec_type s k = (case find (\<lambda>(applies, t). applies s k) type_rules of
                      Some (applies, t) \<Rightarrow> t | None \<Rightarrow> ''string'')"

text \<open>An instance with the type that this rule gives it.\<close>

definition set_type :: "Prosody \<Rightarrow> Prosody" where
  "set_type self = self\<lparr>type := spec_type (store self) (key self)\<rparr>"

text \<open>
  SQL's \<^verbatim>\<open>UPPER\<close>, which the query of \<^verbatim>\<open>get_data_store\<close> applies and to which Django
  translates \<^verbatim>\<open>user__iexact\<close>, on the letters of ASCII.
\<close>

definition upper_char :: "char \<Rightarrow> char" where
  "upper_char c =
     (case map_of (zip ''abcdefghijklmnopqrstuvwxyz'' ''ABCDEFGHIJKLMNOPQRSTUVWXYZ'') c of
        Some u \<Rightarrow> u | None \<Rightarrow> c)"

definition UPPER :: "string \<Rightarrow> string" where
  "UPPER s = map upper_char s"













text \<open>
  \<^verbatim>\<open>ProsodyDatastore.get_data_store\<close>. \<^verbatim>\<open>dict(pairs)\<close> keeps, for a key that occurs
  twice, the value of the later pair. No statement of the function raises.
\<close>

definition dict :: "('k \<times> 'v) list \<Rightarrow> ('k \<rightharpoonup> 'v)" where
  "dict pairs = fold (\<lambda>(k, v) m. m(k \<mapsto> v)) pairs Map.empty"

definition selected :: "string \<Rightarrow> string \<Rightarrow> string \<Rightarrow> Prosody \<Rightarrow> bool" where
  "selected username' domain store' x =
     (UPPER (user x) = UPPER username' \<and> UPPER (host x) = UPPER domain \<and> store x = store')"

definition get_data_store :: "string \<Rightarrow> string \<Rightarrow> string \<Rightarrow> Prosody list \<Rightarrow> (string \<rightharpoonup> string)" where
  "get_data_store username' domain store' tbl =
     dict (map (\<lambda>x. (key x, value x)) (filter (selected username' domain store') tbl))"

subsection \<open>Notions used to state the properties of the store\<close>


text \<open>Concrete rows, tables and a user.\<close>

definition roster_row :: Prosody where
  "roster_row = \<lparr>row_id = None, host = ''example.com'', user = ''bob'', store = ''roster'',
                 key = ''anything'', type = ''number'', value = ''{}''\<rparr>"

definition table_ex :: "Prosody list" where
  "table_ex =
     [\<lparr>row_id = Some 1, host = ''Example.com'', user = ''Bob'', store = ''lastlog'',
       key = ''timestamp'', type = ''number'', value = ''1000''\<rparr>,
      \<lparr>row_id = Some 2, host = ''example.com'', user = ''bob'', store = ''lastlog'',
       key = ''event'', type = ''string'', value = ''login''\<rparr>,
      \<lparr>row_id = Some 3, host = ''example.com'', user = ''bob'', store = ''accounts'',
       key = ''iterations'', type = ''number'', value = ''4096''\<rparr>,
      \<lparr>row_id = Some 4, host = ''example.com'', user = ''amy'', store = ''lastlog'',
       key = ''event'', type = ''string'', value = ''logout''\<rparr>]"




section \<open>Properties of the tree renderer\<close>

subsection \<open>The closing loop in closed form\<close>

declare close_loop.simps [simp del]

lemma rev_last_butlast: "xs \<noteq> [] \<Longrightarrow> rev xs = last xs # rev (butlast xs)"
  by (induction xs rule: rev_induct) simp_all

lemma close_loop_empty: "levels s = [] \<Longrightarrow> close_loop s l = (Some IndexError, s)"
  by (subst close_loop.simps) simp

lemma close_loop_levels:
  "levels (snd (close_loop s l)) = rev (dropWhile (\<lambda>r. r < l) (rev (levels s)))"
proof (induction s l rule: close_loop.induct)
  case (1 s l)
  show ?case
  proof (cases "levels s = []")
    case True
    then show ?thesis by (subst close_loop.simps) simp
  next
    case False
    show ?thesis
    proof (cases "last (levels s) < l")
      case True
      with False 1 show ?thesis
        by (subst close_loop.simps) (simp add: rev_last_butlast [OF False])
    next
      case stop: False
      with False show ?thesis
        by (subst close_loop.simps) (simp add: rev_last_butlast [OF False])
    qed
  qed
qed

lemma close_loop_html:
  "html (snd (close_loop s l)) =
     html s @ replicate (length (takeWhile (\<lambda>r. r < l) (rev (levels s)))) close_tag"
proof (induction s l rule: close_loop.induct)
  case (1 s l)
  show ?case
  proof (cases "levels s = []")
    case True
    then show ?thesis by (subst close_loop.simps) simp
  next
    case False
    show ?thesis
    proof (cases "last (levels s) < l")
      case True
      with False 1 show ?thesis
        by (subst close_loop.simps)
          (simp add: rev_last_butlast [OF False] replicate_app_Cons_same)
    next
      case stop: False
      with False show ?thesis
        by (subst close_loop.simps) (simp add: rev_last_butlast [OF False])
    qed
  qed
qed

lemma close_loop_depth:
  "depth (snd (close_loop s l)) =
     depth s - int (length (takeWhile (\<lambda>r. r < l) (rev (levels s))))"
proof (induction s l rule: close_loop.induct)
  case (1 s l)
  show ?case
  proof (cases "levels s = []")
    case True
    then show ?thesis by (subst close_loop.simps) simp
  next
    case False
    show ?thesis
    proof (cases "last (levels s) < l")
      case True
      with False 1 show ?thesis
        by (subst close_loop.simps) (simp add: rev_last_butlast [OF False])
    next
      case stop: False
      with False show ?thesis
        by (subst close_loop.simps) (simp add: rev_last_butlast [OF False])
    qed
  qed
qed

text \<open>The loop raises exactly when it has emptied the stack.\<close>

lemma close_loop_error:
  "fst (close_loop s l) = (if list_all (\<lambda>r. r < l) (levels s) then Some IndexError else None)"
proof (induction s l rule: close_loop.induct)
  case (1 s l)
  show ?case
  proof (cases "levels s = []")
    case True
    then show ?thesis by (subst close_loop.simps) simp
  next
    case False
    then have split: "levels s = butlast (levels s) @ [last (levels s)]" by simp
    show ?thesis
    proof (cases "last (levels s) < l")
      case True
      have "list_all (\<lambda>r. r < l) (levels s) = list_all (\<lambda>r. r < l) (butlast (levels s))"
        by (subst split) (simp add: True)
      with False True 1 show ?thesis
        by (subst close_loop.simps) simp
    next
      case stop: False
      have "\<not> list_all (\<lambda>r. r < l) (levels s)"
        by (subst split) (simp add: stop)
      with False stop show ?thesis
        by (subst close_loop.simps) simp
    qed
  qed
qed

lemma after_close_levels:
  "levels (after_close s l) = rev (dropWhile (\<lambda>r. r < l) (rev (levels s)))"
  by (simp add: after_close_def close_loop_levels)

lemma after_close_html:
  "html (after_close s l) =
     html s @ replicate (length (takeWhile (\<lambda>r. r < l) (rev (levels s)))) close_tag"
  by (simp add: after_close_def close_loop_html)

lemma after_close_depth:
  "depth (after_close s l) =
     depth s - int (length (takeWhile (\<lambda>r. r < l) (rev (levels s))))"
  by (simp add: after_close_def close_loop_depth)

text \<open>On a stack that decreases from bottom to top the loop is a filter.\<close>

lemma sorted_dropWhile_filter:
  "sorted_wrt (\<lambda>a b. a > b) (xs :: int list) \<Longrightarrow>
     rev (dropWhile (\<lambda>r. r < l) (rev xs)) = filter (\<lambda>r. \<not> r < l) xs"
proof (induction xs rule: rev_induct)
  case Nil
  then show ?case by simp
next
  case (snoc x xs)
  then have above: "\<forall>y\<in>set xs. x < y" and sorted: "sorted_wrt (\<lambda>a b. a > b) xs"
    by (auto simp: sorted_wrt_append)
  show ?case
  proof (cases "x < l")
    case True
    with snoc.IH sorted show ?thesis by simp
  next
    case False
    with above have "\<forall>y\<in>set xs. \<not> y < l" by auto
    then have "filter (\<lambda>r. \<not> r < l) xs = xs" by (simp add: filter_id_conv)
    with False show ?thesis by simp
  qed
qed

lemma sorted_takeWhile_filter:
  "sorted_wrt (\<lambda>a b. a > b) (xs :: int list) \<Longrightarrow>
     length (takeWhile (\<lambda>r. r < l) (rev xs)) = length (filter (\<lambda>r. r < l) xs)"
proof (induction xs rule: rev_induct)
  case Nil
  then show ?case by simp
next
  case (snoc x xs)
  then have above: "\<forall>y\<in>set xs. x < y" and sorted: "sorted_wrt (\<lambda>a b. a > b) xs"
    by (auto simp: sorted_wrt_append)
  show ?case
  proof (cases "x < l")
    case True
    with snoc.IH sorted show ?thesis by simp
  next
    case False
    with above have "\<forall>y\<in>set xs. \<not> y < l" by auto
    then have "filter (\<lambda>r. r < l) xs = []" by (simp add: filter_empty_conv)
    with False show ?thesis by simp
  qed
qed

subsection \<open>The handler always goes on\<close>

lemma post_step_Inr:
  "post_step icon url cur s p = Inr (emit_post icon url cur (after_close s (left p)) p)"
proof -
  obtain e s1 where c: "close_loop s (left p) = (e, s1)"
    by (cases "close_loop s (left p)")
  have "fst (close_loop s (left p)) = None \<or> fst (close_loop s (left p)) = Some IndexError"
    by (simp add: close_loop_error)
  with c have "e = None \<or> e = Some IndexError" by simp
  with c show ?thesis by (auto simp: post_step_def after_close_def)
qed

lemma for_posts_Inr:
  "for_posts icon url cur s ps =
     Inr (foldl (\<lambda>s p. emit_post icon url cur (after_close s (left p)) p) s ps)"
  by (induction ps arbitrary: s) (simp_all add: post_step_Inr)

subsection \<open>The claims about single steps\<close>

text \<open>
  C2, as amended. Before a post is emitted the loop pops boundaries from the top of the
  stack, one close tag for each, for as long as the top is strictly less than the
  post's \<^verbatim>\<open>left\<close>; it stops at the first boundary that is not, whatever lies
  beneath. When the boundaries decrease from the bottom of the stack to its top, these
  are all the boundaries strictly less than \<^verbatim>\<open>left\<close>.
\<close>

theorem close_loop_pops_while_less:
  "levels (after_close s l) = rev (dropWhile (\<lambda>r. r < l) (rev (levels s))) \<and>
   html (after_close s l) =
     html s @ replicate (length (takeWhile (\<lambda>r. r < l) (rev (levels s)))) close_tag \<and>
   depth (after_close s l) =
     depth s - int (length (takeWhile (\<lambda>r. r < l) (rev (levels s)))) \<and>
   (sorted_wrt (\<lambda>a b. a > b) (levels s) \<longrightarrow>
      levels (after_close s l) = filter (\<lambda>r. \<not> r < l) (levels s) \<and>
      html (after_close s l) =
        html s @ replicate (length (filter (\<lambda>r. r < l) (levels s))) close_tag)"
  by (simp add: after_close_levels after_close_html after_close_depth
      sorted_dropWhile_filter sorted_takeWhile_filter)

theorem close_loop_pops_while_less_witness:
  "sorted_wrt (\<lambda>a b. a > b) [9, 7, 4, 2 :: int] \<and>
   levels (after_close \<lparr>levels = [9, 7, 4, 2], depth = 4, html = []\<rparr> 5) = [9, 7] \<and>
   html (after_close \<lparr>levels = [9, 7, 4, 2], depth = 4, html = []\<rparr> 5)
     = [close_tag, close_tag]"
  using close_loop_pops_while_less [of "\<lparr>levels = [9, 7, 4, 2], depth = 4, html = []\<rparr>" 5]
  by simp

text \<open>
  C2 as it is stated fails. The first post has \<^verbatim>\<open>right = 5\<close>, the second
  \<^verbatim>\<open>left = 5\<close>: the boundary is less than or equal to \<^verbatim>\<open>left\<close>, and no close tag
  stands between the two posts; the first container is closed at the very end.
\<close>

theorem close_loop_keeps_equal_boundary:
  "right post_a \<le> left post_b \<and>
   tree_pieces example_icon example_url [post_a, post_b] None
     = Inr [wrapper_open,
            post_line example_icon example_url None post_a,
            post_line example_icon example_url None post_b,
            close_tag, close_tag, close_tag]"
  by (simp add: tree_pieces_def for_posts_Inr after_close_def close_loop_empty init_state_def
      emit_post_def Let_def post_a_def post_b_def
      close_loop.simps [of "\<lparr>levels = [5], depth = 1, html = h\<rparr>" for h])

text \<open>
  C3. After the loop, an iteration appends the line of the post. When
  \<^verbatim>\<open>right - left > 1\<close> it pushes \<^verbatim>\<open>right\<close> and appends no close tag; otherwise it
  appends the close tag at once and leaves the stack as it is.
\<close>

theorem post_step_push_or_close:
  "\<exists>s'. post_step icon url current_post s p = Inr s' \<and>
     (if right p - left p > 1
      then levels s' = levels (after_close s (left p)) @ [right p] \<and>
           html s' = html (after_close s (left p)) @ [post_line icon url current_post p] \<and>
           depth s' = int (length (levels s'))
      else levels s' = levels (after_close s (left p)) \<and>
           html s' = html (after_close s (left p))
                       @ [post_line icon url current_post p, close_tag] \<and>
           depth s' = depth (after_close s (left p)))"
  by (simp add: post_step_Inr emit_post_def Let_def)

text \<open>
  C4. \<^verbatim>\<open>make_tree\<close> returns a string for every sequence of posts, whatever their
  boundaries. On an empty stack the loop raises \<^const>\<open>IndexError\<close> with nothing
  changed, and the iteration goes on to emit the post.
\<close>

theorem make_tree_total:
  "(\<exists>h. make_tree icon url posts current_post = Inr h) \<and>
   close_loop (s\<lparr>levels := []\<rparr>) l = (Some IndexError, s\<lparr>levels := []\<rparr>) \<and>
   post_step icon url current_post (s\<lparr>levels := []\<rparr>) p
     = Inr (emit_post icon url current_post (s\<lparr>levels := []\<rparr>) p)"
proof (intro conjI)
  show "\<exists>h. make_tree icon url posts current_post = Inr h"
    by (simp add: make_tree_def tree_pieces_def for_posts_Inr)
  show "close_loop (s\<lparr>levels := []\<rparr>) l = (Some IndexError, s\<lparr>levels := []\<rparr>)"
    by (simp add: close_loop_empty)
  show "post_step icon url current_post (s\<lparr>levels := []\<rparr>) p
     = Inr (emit_post icon url current_post (s\<lparr>levels := []\<rparr>) p)"
    by (simp add: post_step_Inr after_close_def close_loop_empty)
qed

subsection \<open>Counting the pieces\<close>

lemma is_open_line [simp]: "is_open (post_line icon url cur p)"
  by (simp add: is_open_def post_line_def)

lemma is_close_line [simp]: "\<not> is_close (post_line icon url cur p)"
  by (simp add: is_close_def post_line_def)

lemma tag_kinds [simp]:
  "\<not> is_open close_tag" "is_close close_tag" "is_open wrapper_open" "\<not> is_close wrapper_open"
  by (simp_all add: is_open_def is_close_def close_tag_def wrapper_open_def)

lemma opens_append [simp]: "opens (xs @ ys) = opens xs + opens ys"
  by (simp add: opens_def)

lemma closes_append [simp]: "closes (xs @ ys) = closes xs + closes ys"
  by (simp add: closes_def)

lemma opens_simps [simp]:
  "opens [] = 0" "opens (x # xs) = (if is_open x then 1 else 0) + opens xs"
  by (simp_all add: opens_def)

lemma closes_simps [simp]:
  "closes [] = 0" "closes (x # xs) = (if is_close x then 1 else 0) + closes xs"
  by (simp_all add: closes_def)

lemma opens_replicate_close [simp]: "opens (replicate n close_tag) = 0"
  by (induction n) simp_all

lemma closes_replicate_close [simp]: "closes (replicate n close_tag) = n"
  by (induction n) simp_all

lemma takeWhile_dropWhile_length:
  "length (takeWhile P xs) + length (dropWhile P xs) = length xs"
  by (metis length_append takeWhile_dropWhile_id)

lemma balanced_after_close: "balanced_at k s \<Longrightarrow> balanced_at k (after_close s l)"
  using takeWhile_dropWhile_length [of "\<lambda>r. r < l" "rev (levels s)"]
  by (simp add: balanced_at_def after_close_levels after_close_html after_close_depth)

lemma balanced_emit:
  "balanced_at k s \<Longrightarrow> balanced_at (Suc k) (emit_post icon url cur s p)"
  by (simp add: balanced_at_def emit_post_def Let_def)

lemma balanced_run:
  "balanced_at k s \<Longrightarrow> balanced_at (k + length ps) (foldl (step icon url cur) s ps)"
proof (induction ps arbitrary: s k)
  case Nil
  then show ?case by simp
next
  case (Cons p ps)
  from Cons.prems have "balanced_at (Suc k) (emit_post icon url cur (after_close s (left p)) p)"
    by (intro balanced_emit balanced_after_close)
  from Cons.IH [OF this] show ?case by simp
qed

lemma balanced_init: "balanced_at 0 init_state"
  by (simp add: balanced_at_def init_state_def)

lemma pieces_balanced:
  "\<exists>pieces. tree_pieces icon url posts cur = Inr pieces
     \<and> opens pieces = length posts + 1 \<and> closes pieces = length posts + 1"
  using balanced_run [OF balanced_init, of posts icon url cur]
  by (simp add: tree_pieces_def for_posts_Inr balanced_at_def)

subsection \<open>Counting on the returned string\<close>

lemma tag_free_skip: "tag_free pat t \<Longrightarrow> count_occ pat (t @ s) = count_occ pat s"
proof (induction t)
  case Nil
  then show ?case by simp
next
  case (Cons c cs)
  then have no: "\<not> prefix pat (c # cs)" "\<not> prefix (c # cs) pat" and rest: "tag_free pat cs"
    by simp_all
  have "\<not> prefix pat ((c # cs) @ s)"
  proof
    assume "prefix pat ((c # cs) @ s)"
    then have "prefix pat (c # cs) \<or> (\<exists>us. pat = (c # cs) @ us \<and> prefix us s)"
      by (simp only: prefix_append)
    with no show False by (auto simp: prefix_def)
  qed
  with Cons.IH [OF rest] show ?case by simp
qed

lemma clean_open: "clean_text t \<Longrightarrow> count_occ open_tag (t @ s) = count_occ open_tag s"
  by (simp add: clean_text_def tag_free_skip)

lemma clean_close: "clean_text t \<Longrightarrow> count_occ close_tag (t @ s) = count_occ close_tag s"
  by (simp add: clean_text_def tag_free_skip)

lemma count_open_close_tag: "count_occ open_tag (close_tag @ s) = count_occ open_tag s"
  by (simp add: open_tag_def close_tag_def)

lemma count_close_close_tag: "count_occ close_tag (close_tag @ s) = Suc (count_occ close_tag s)"
  by (simp add: close_tag_def)

lemma count_open_wrapper: "count_occ open_tag (wrapper_open @ s) = Suc (count_occ open_tag s)"
  by (simp add: open_tag_def wrapper_open_def)

lemma count_close_wrapper: "count_occ close_tag (wrapper_open @ s) = count_occ close_tag s"
  by (simp add: close_tag_def wrapper_open_def)

lemma count_open_line:
  assumes "clean_text icon" "clean_post url p"
  shows "count_occ open_tag (post_line icon url cur p @ s) = Suc (count_occ open_tag s)"
proof -
  have lit: "\<And>r. count_occ open_tag (''<div>'' @ r) = Suc (count_occ open_tag r)"
    \<open>\<And>r. count_occ open_tag (''<div><a href="'' @ r) = Suc (count_occ open_tag r)\<close>
    \<open>\<And>r. count_occ open_tag (''">'' @ r) = count_occ open_tag r\<close>
    "\<And>r. count_occ open_tag (''</a> by '' @ r) = count_occ open_tag r"
    "\<And>r. count_occ open_tag ('' by '' @ r) = count_occ open_tag r"
    "\<And>r. count_occ open_tag ('' on '' @ r) = count_occ open_tag r"
    "\<And>r. count_occ open_tag (''[date]'' @ r) = count_occ open_tag r"
    by (simp_all add: open_tag_def)
  from assms show ?thesis
    by (simp add: post_line_def clean_post_def lit clean_open del: append.simps)
qed

lemma count_close_line:
  assumes "clean_text icon" "clean_post url p"
  shows "count_occ close_tag (post_line icon url cur p @ s) = count_occ close_tag s"
proof -
  have lit: "\<And>r. count_occ close_tag (''<div>'' @ r) = count_occ close_tag r"
    \<open>\<And>r. count_occ close_tag (''<div><a href="'' @ r) = count_occ close_tag r\<close>
    \<open>\<And>r. count_occ close_tag (''">'' @ r) = count_occ close_tag r\<close>
    "\<And>r. count_occ close_tag (''</a> by '' @ r) = count_occ close_tag r"
    "\<And>r. count_occ close_tag ('' by '' @ r) = count_occ close_tag r"
    "\<And>r. count_occ close_tag ('' on '' @ r) = count_occ close_tag r"
    "\<And>r. count_occ close_tag (''[date]'' @ r) = count_occ close_tag r"
    by (simp_all add: close_tag_def)
  from assms show ?thesis
    by (simp add: post_line_def clean_post_def lit clean_close del: append.simps)
qed

lemma known_piece_open:
  assumes "clean_text icon" "\<forall>p\<in>set posts. clean_post url p" "known_piece icon url cur posts x"
  shows "count_occ open_tag (x @ s) = (if is_open x then 1 else 0) + count_occ open_tag s"
  using assms
  by (auto simp: known_piece_def count_open_line count_open_wrapper count_open_close_tag)

lemma known_piece_close:
  assumes "clean_text icon" "\<forall>p\<in>set posts. clean_post url p" "known_piece icon url cur posts x"
  shows "count_occ close_tag (x @ s) = (if is_close x then 1 else 0) + count_occ close_tag s"
  using assms
  by (auto simp: known_piece_def count_close_line count_close_wrapper count_close_close_tag)

lemma count_concat:
  assumes "\<forall>x\<in>set xs. \<forall>s. count_occ pat (x @ s) = (if f x then 1 else 0) + count_occ pat s"
  shows "count_occ pat (concat xs @ s) = length (filter f xs) + count_occ pat s"
  using assms by (induction xs) simp_all

lemma known_after_close:
  "\<forall>x\<in>set (html s). known_piece icon url cur posts x \<Longrightarrow>
   \<forall>x\<in>set (html (after_close s l)). known_piece icon url cur posts x"
  by (auto simp: after_close_html known_piece_def)

lemma known_emit:
  "\<forall>x\<in>set (html s). known_piece icon url cur posts x \<Longrightarrow> p \<in> set posts \<Longrightarrow>
   \<forall>x\<in>set (html (emit_post icon url cur s p)). known_piece icon url cur posts x"
  by (auto simp: emit_post_def Let_def known_piece_def)

lemma known_run:
  "\<forall>x\<in>set (html s). known_piece icon url cur posts x \<Longrightarrow> set ps \<subseteq> set posts \<Longrightarrow>
   \<forall>x\<in>set (html (foldl (step icon url cur) s ps)). known_piece icon url cur posts x"
proof (induction ps arbitrary: s)
  case Nil
  then show ?case by simp
next
  case (Cons p ps)
  from Cons.prems have "\<forall>x\<in>set (html (emit_post icon url cur (after_close s (left p)) p)).
      known_piece icon url cur posts x"
    by (intro known_emit known_after_close) simp_all
  from Cons.IH [OF this] Cons.prems(2) show ?case by simp
qed

lemma known_pieces:
  "tree_pieces icon url posts cur = Inr pieces \<Longrightarrow> \<forall>x\<in>set pieces. known_piece icon url cur posts x"
  using known_run [of init_state icon url cur posts posts]
  by (auto simp: tree_pieces_def for_posts_Inr init_state_def known_piece_def)

subsection \<open>The stack on well-formed input\<close>















subsection \<open>The whole output\<close>

text \<open>
  C5. On the empty sequence of posts \<^verbatim>\<open>make_tree\<close> returns the outer wrapper, opened
  and closed at once, and nothing else.
\<close>

theorem make_tree_empty:
  \<open>make_tree icon url [] current_post = Inr ''<div class="post-tree"></div>''\<close>
  by (simp add: make_tree_def tree_pieces_def init_state_def wrapper_open_def close_tag_def)

text \<open>
  C9, as amended. For every sequence of posts, whatever their boundaries, the pieces that
  \<^verbatim>\<open>make_tree\<close> appends hold as many close tags as open tags, one more than there are
  posts. The returned string holds as many occurrences of \<^verbatim>\<open></div>\<close> as of \<^verbatim>\<open><div\<close>,
  again one more than there are posts, when the texts put into it (icon, link, subject,
  user name) are free of both patterns.
\<close>

theorem make_tree_balanced:
  "\<exists>pieces. tree_pieces icon url posts current_post = Inr pieces \<and>
     make_tree icon url posts current_post = Inr (concat pieces) \<and>
     opens pieces = length posts + 1 \<and> closes pieces = length posts + 1 \<and>
     (clean_text icon \<and> list_all (clean_post url) posts \<longrightarrow>
        count_occ open_tag (concat pieces) = length posts + 1 \<and>
        count_occ close_tag (concat pieces) = length posts + 1)"
proof -
  obtain pieces where p: "tree_pieces icon url posts current_post = Inr pieces"
    and o: "opens pieces = length posts + 1" and c: "closes pieces = length posts + 1"
    using pieces_balanced [of icon url posts current_post] by blast
  have m: "make_tree icon url posts current_post = Inr (concat pieces)"
    by (simp add: make_tree_def p)
  have "count_occ open_tag (concat pieces) = length posts + 1
      \<and> count_occ close_tag (concat pieces) = length posts + 1"
    if clean: "clean_text icon" "list_all (clean_post url) posts"
  proof -
    from clean(2) have all: "\<forall>q\<in>set posts. clean_post url q"
      by (simp add: list_all_iff)
    have known: "\<forall>x\<in>set pieces. known_piece icon url current_post posts x"
      using known_pieces [OF p] .
    have "count_occ open_tag (concat pieces @ []) = length (filter is_open pieces) + count_occ open_tag []"
      by (rule count_concat) (use known known_piece_open [OF clean(1) all] in blast)
    moreover have "count_occ close_tag (concat pieces @ []) = length (filter is_close pieces) + count_occ close_tag []"
      by (rule count_concat) (use known known_piece_close [OF clean(1) all] in blast)
    ultimately show ?thesis
      using o c by (simp add: opens_def closes_def open_tag_def close_tag_def)
  qed
  with p m o c show ?thesis by blast
qed

theorem make_tree_balanced_witness:
  "clean_text example_icon \<and> list_all (clean_post example_url) [post_a, post_b] \<and>
   (\<exists>h. make_tree example_icon example_url [post_a, post_b] (Some post_b) = Inr h \<and>
      count_occ open_tag h = 3 \<and> count_occ close_tag h = 3)"
proof -
  have 1: "clean_text example_icon"
    by (simp add: clean_text_def example_icon_def open_tag_def close_tag_def)
  have 2: "list_all (clean_post example_url) [post_a, post_b]"
    by (simp add: clean_post_def clean_text_def example_url_def post_a_def post_b_def
        open_tag_def close_tag_def)
  from 1 2 make_tree_balanced [of example_icon example_url "[post_a, post_b]" "Some post_b"]
  show ?thesis by auto
qed

text \<open>
  C9 as it is stated fails on the returned string: a subject is put into the output as
  it is, and a subject that is a close tag gives one close tag more than open tags.
\<close>

theorem make_tree_subject_markup:
  \<open>make_tree example_icon example_url [post_c] None
     = Inr ''<div class="post-tree"><div><a href="/forum/general/post/"></div></a> by eve on [date]</div></div>''
   \<and> count_occ open_tag
       ''<div class="post-tree"><div><a href="/forum/general/post/"></div></a> by eve on [date]</div></div>'' = 2
   \<and> count_occ close_tag
       ''<div class="post-tree"><div><a href="/forum/general/post/"></div></a> by eve on [date]</div></div>'' = 3\<close>
  by (simp add: make_tree_def tree_pieces_def for_posts_Inr after_close_def close_loop_empty
      init_state_def emit_post_def Let_def post_c_def post_line_def is_current_def
      example_url_def wrapper_open_def close_tag_def open_tag_def)



section \<open>Properties of the shared account store\<close>

subsection \<open>Saving a row\<close>

lemma spec_type_cases:
  "spec_type s k =
     (if s = ''lastlog'' \<and> k = ''timestamp'' then ''number''
      else if s = ''accounts'' \<and> k = ''iterations'' then ''number''
      else if s = ''roster'' then ''json''
      else if k = ''persistence'' then ''boolean''
      else ''string'')"
  by (simp add: spec_type_def type_rules_def)

lemma save_set_type: "save self tbl = Model_save (set_type self) tbl"
  unfolding save_def set_type_def spec_type_cases by (simp only: if_distrib [of "\<lambda>t. self\<lparr>type := t\<rparr>"])

lemma Model_save_Inl: "Model_save r tbl = Inl e \<Longrightarrow> e = IntegrityError"
  by (simp add: Model_save_def Let_def split: if_splits)

lemma Model_save_stored:
  assumes "Model_save r tbl = Inr (r', tbl')"
  shows "r' \<in> set tbl'" "host r' = host r" "user r' = user r" "store r' = store r"
    "key r' = key r" "type r' = type r" "value r' = value r"
proof -
  have "(r' = r \<and> tbl' = map (\<lambda>x. if row_id x = row_id r then r else x) tbl
          \<and> list_ex (\<lambda>x. row_id x = row_id r) tbl) \<or> tbl' = tbl @ [r']"
    using assms by (auto simp: Model_save_def Let_def split: if_splits)
  then show "r' \<in> set tbl'"
  proof
    assume update: "r' = r \<and> tbl' = map (\<lambda>x. if row_id x = row_id r then r else x) tbl
          \<and> list_ex (\<lambda>x. row_id x = row_id r) tbl"
    then obtain x where "x \<in> set tbl" "row_id x = row_id r"
      by (auto simp: list_ex_iff)
    then have "r \<in> (\<lambda>x. if row_id x = row_id r then r else x) ` set tbl"
      by (intro image_eqI [of _ _ x]) simp_all
    with update show ?thesis by simp
  next
    assume "tbl' = tbl @ [r']"
    then show ?thesis by simp
  qed
  have "r' = r \<or> r' = r\<lparr>row_id := Some (next_id tbl)\<rparr>"
    using assms by (simp add: Model_save_def Let_def split: if_splits)
  then show "host r' = host r" "user r' = user r" "store r' = store r"
    "key r' = key r" "type r' = type r" "value r' = value r"
    by auto
qed

lemma set_type_fields:
  "type (set_type self) = spec_type (store self) (key self)" "store (set_type self) = store self"
  "key (set_type self) = key self" "value (set_type self) = value self"
  "user (set_type self) = user self" "host (set_type self) = host self"
  by (simp_all add: set_type_def)


subsection \<open>Dictionaries\<close>

lemma dict_map_of: "dict pairs = map_of (rev pairs)"
proof -
  have "fold (\<lambda>(k, v) m. m(k \<mapsto> v)) pairs m = m ++ map_of (rev pairs)" for m :: "'a \<rightharpoonup> 'b"
    by (induction pairs arbitrary: m) auto
  then show ?thesis by (simp add: dict_def)
qed

lemma dom_dict: "dom (dict pairs) = fst ` set pairs"
  by (simp add: dict_map_of dom_map_of_conv_image_fst)

lemma dict_Some: "dict pairs k = Some v \<Longrightarrow> (k, v) \<in> set pairs"
  by (auto simp: dict_map_of dest: map_of_SomeD)

lemma dict_distinct: "distinct (map fst pairs) \<Longrightarrow> (k, v) \<in> set pairs \<Longrightarrow> dict pairs k = Some v"
  by (simp add: dict_map_of distinct_rev rev_map [symmetric])

subsection \<open>Filling the lastlog cache\<close>











lemma roster_example:
  "save roster_row [] = Inr (roster_row\<lparr>row_id := Some 1, type := ''json''\<rparr>,
                             [roster_row\<lparr>row_id := Some 1, type := ''json''\<rparr>])"
  by (simp add: save_def Model_save_def roster_row_def next_id_def Let_def)

subsection \<open>The claims about the store\<close>

text \<open>
  C6. The type that \<^verbatim>\<open>Prosody.save\<close> stores is the one the ordered rule table of the
  specification gives for \<open>(store, key)\<close>: a save that succeeds leaves in the table a
  row with that type and the other fields of the instance, and the only failure is the
  uniqueness constraint. The type the instance had before has no effect on the save.
\<close>

theorem save_type_from_store_key:
  "(case save self tbl of
      Inl e \<Rightarrow> e = IntegrityError
    | Inr (stored, tbl') \<Rightarrow>
        stored \<in> set tbl' \<and> type stored = spec_type (store self) (key self) \<and>
        store stored = store self \<and> key stored = key self \<and> value stored = value self \<and>
        user stored = user self \<and> host stored = host self) \<and>
   save (self\<lparr>type := t\<rparr>) tbl = save self tbl \<and>
   spec_type (store self) (key self) =
     (if store self = ''lastlog'' \<and> key self = ''timestamp'' then ''number''
      else if store self = ''accounts'' \<and> key self = ''iterations'' then ''number''
      else if store self = ''roster'' then ''json''
      else if key self = ''persistence'' then ''boolean''
      else ''string'')"
proof (intro conjI)
  show "case save self tbl of
      Inl e \<Rightarrow> e = IntegrityError
    | Inr (stored, tbl') \<Rightarrow>
        stored \<in> set tbl' \<and> type stored = spec_type (store self) (key self) \<and>
        store stored = store self \<and> key stored = key self \<and> value stored = value self \<and>
        user stored = user self \<and> host stored = host self"
  proof (cases "save self tbl")
    case (Inl e)
    then show ?thesis by (simp add: save_set_type Model_save_Inl)
  next
    case (Inr res)
    obtain stored tbl' where res: "res = (stored, tbl')" by (cases res)
    with Inr have m: "Model_save (set_type self) tbl = Inr (stored, tbl')"
      by (simp add: save_set_type)
    from Model_save_stored [OF m] Inr res show ?thesis
      by (simp add: set_type_fields)
  qed
  show "save (self\<lparr>type := t\<rparr>) tbl = save self tbl"
    by (simp add: save_set_type set_type_def)
  show "spec_type (store self) (key self) =
     (if store self = ''lastlog'' \<and> key self = ''timestamp'' then ''number''
      else if store self = ''accounts'' \<and> key self = ''iterations'' then ''number''
      else if store self = ''roster'' then ''json''
      else if key self = ''persistence'' then ''boolean''
      else ''string'')"
    by (rule spec_type_cases)
qed

theorem save_type_from_store_key_witness:
  "save roster_row [] = Inr (roster_row\<lparr>row_id := Some 1, type := ''json''\<rparr>,
                             [roster_row\<lparr>row_id := Some 1, type := ''json''\<rparr>]) \<and>
   type roster_row = ''number'' \<and>
   save (roster_row\<lparr>type := ''boolean''\<rparr>) [] = save roster_row []"
proof -
  have t: "type roster_row = ''number''" by (simp add: roster_row_def)
  from save_type_from_store_key [of roster_row "[]" "''boolean''"]
  have "save (roster_row\<lparr>type := ''boolean''\<rparr>) [] = save roster_row []"
    by (rule conjunct2 [THEN conjunct1])
  with roster_example t show ?thesis by (intro conjI)
qed



text \<open>
  C8. \<^verbatim>\<open>get_data_store\<close> returns the dictionary of the pairs of key and raw value of
  exactly the rows whose user and host match without regard to case and whose store is
  equal: its keys are the keys of these rows, each of its values is the text of such a
  row (of every such row when their keys are distinct), it is empty when no row
  matches, and the type column has no effect on it.
\<close>

theorem get_data_store_raw:
  "get_data_store u d s tbl
     = map_of (rev (map (\<lambda>x. (key x, value x)) (filter (selected u d s) tbl))) \<and>
   dom (get_data_store u d s tbl) = key ` set (filter (selected u d s) tbl) \<and>
   (\<forall>k v. get_data_store u d s tbl k = Some v \<longrightarrow>
      (\<exists>x\<in>set tbl. selected u d s x \<and> key x = k \<and> value x = v)) \<and>
   (distinct (map key (filter (selected u d s) tbl)) \<longrightarrow>
      (\<forall>x\<in>set tbl. selected u d s x \<longrightarrow> get_data_store u d s tbl (key x) = Some (value x))) \<and>
   (filter (selected u d s) tbl = [] \<longrightarrow> get_data_store u d s tbl = Map.empty) \<and>
   get_data_store u d s (map (\<lambda>x. x\<lparr>type := f x\<rparr>) tbl) = get_data_store u d s tbl"
proof (intro conjI)
  let ?rows = "filter (selected u d s) tbl"
  let ?pairs = "map (\<lambda>x. (key x, value x)) ?rows"
  have g: "get_data_store u d s tbl = dict ?pairs" by (simp add: get_data_store_def)
  show "get_data_store u d s tbl = map_of (rev ?pairs)" by (simp add: g dict_map_of)
  show "dom (get_data_store u d s tbl) = key ` set ?rows"
    by (simp add: g dom_dict image_image)
  show "\<forall>k v. get_data_store u d s tbl k = Some v \<longrightarrow>
      (\<exists>x\<in>set tbl. selected u d s x \<and> key x = k \<and> value x = v)"
    by (auto simp: g dest!: dict_Some)
  show "distinct (map key ?rows) \<longrightarrow>
      (\<forall>x\<in>set tbl. selected u d s x \<longrightarrow> get_data_store u d s tbl (key x) = Some (value x))"
  proof (intro impI ballI)
    fix x assume dist: "distinct (map key ?rows)" and x: "x \<in> set tbl" "selected u d s x"
    have "distinct (map fst ?pairs)" using dist by (simp add: comp_def)
    moreover have "(key x, value x) \<in> set ?pairs" using x by auto
    ultimately show "get_data_store u d s tbl (key x) = Some (value x)"
      unfolding g by (rule dict_distinct)
  qed
  show "?rows = [] \<longrightarrow> get_data_store u d s tbl = Map.empty"
    by (simp add: g dict_def)
  have "filter (selected u d s) (map (\<lambda>x. x\<lparr>type := f x\<rparr>) tbl)
      = map (\<lambda>x. x\<lparr>type := f x\<rparr>) ?rows"
  proof -
    have "selected u d s \<circ> (\<lambda>x. x\<lparr>type := f x\<rparr>) = selected u d s"
      by (simp add: fun_eq_iff selected_def)
    then show ?thesis by (simp only: filter_map)
  qed
  then show "get_data_store u d s (map (\<lambda>x. x\<lparr>type := f x\<rparr>) tbl) = get_data_store u d s tbl"
    by (simp add: get_data_store_def comp_def)
qed

theorem get_data_store_raw_witness:
  "distinct (map key (filter (selected ''bob'' ''example.com'' ''lastlog'') table_ex)) \<and>
   get_data_store ''bob'' ''example.com'' ''lastlog'' table_ex ''timestamp'' = Some ''1000'' \<and>
   get_data_store ''bob'' ''example.com'' ''lastlog'' table_ex ''event'' = Some ''login'' \<and>
   get_data_store ''bob'' ''example.com'' ''lastlog'' table_ex ''iterations'' = None \<and>
   filter (selected ''bob'' ''example.org'' ''lastlog'') table_ex = [] \<and>
   get_data_store ''bob'' ''example.org'' ''lastlog'' table_ex = Map.empty"
proof -
  have sel: "filter (selected ''bob'' ''example.com'' ''lastlog'') table_ex = take 2 table_ex"
    by (simp add: table_ex_def selected_def UPPER_def upper_char_def)
  have none: "filter (selected ''bob'' ''example.org'' ''lastlog'') table_ex = []"
    by (simp add: table_ex_def selected_def UPPER_def upper_char_def)
  have dist: "distinct (map key (filter (selected ''bob'' ''example.com'' ''lastlog'') table_ex))"
    by (simp add: sel) (simp add: table_ex_def)
  from get_data_store_raw [of "''bob''" "''example.com''" "''lastlog''" table_ex]
  have eq: "get_data_store ''bob'' ''example.com'' ''lastlog'' table_ex
      = map_of (rev (map (\<lambda>x. (key x, value x)) (take 2 table_ex)))"
    by (simp only: sel)
  from get_data_store_raw [of "''bob''" "''example.org''" "''lastlog''" table_ex] none
  have empty: "get_data_store ''bob'' ''example.org'' ''lastlog'' table_ex = Map.empty"
    by blast
  have vals: "get_data_store ''bob'' ''example.com'' ''lastlog'' table_ex ''timestamp'' = Some ''1000''"
    "get_data_store ''bob'' ''example.com'' ''lastlog'' table_ex ''event'' = Some ''login''"
    "get_data_store ''bob'' ''example.com'' ''lastlog'' table_ex ''iterations'' = None"
    unfolding eq by (simp_all add: table_ex_def)
  from dist vals none empty show ?thesis by (intro conjI)
qed




end
